theory Spec2Isabelle
  imports Main "HOL-Library.Sublist"
begin

section \<open>Data model (src/lib/users.ts)\<close>

text \<open>
  The two interfaces of \<^verbatim>\<open>src/lib/users.ts\<close> become records. Field names shared by
  several records are written qualified (\<open>AppUser.email\<close>, \<open>PasswordResetOtp.email\<close>).
  The \<^verbatim>\<open>id\<close> column is called \<open>otp_id\<close>, since \<open>id\<close> is the identity function of HOL.
  Timestamps (\<^verbatim>\<open>created_at\<close>, \<^verbatim>\<open>expires_at\<close>, \<^verbatim>\<open>Date.now()\<close>) are milliseconds since the
  epoch, as integers; the ISO strings the code sends are the backing store's notation
  for them and the store compares the instants.
\<close>

datatype Status = Pending | Approved

record AppUser =
  full_name :: string
  email :: string
  password :: string
  status :: Status

type_synonym time = int

record PasswordResetOtp =
  otp_id :: string
  email :: string
  otp :: string
  created_at :: time
  expires_at :: time
  used :: bool

text \<open>
  The backing store: the two tables the code queries, each a list of rows (table order
  is the order in which the rows were inserted).
\<close>

record store =
  AppUsers :: "AppUser list"
  password_reset_otps :: "PasswordResetOtp list"

text \<open>
  What the query layer hands back in \<^verbatim>\<open>error\<close>: an object with a \<^verbatim>\<open>code\<close> and a
  \<^verbatim>\<open>message\<close> (the code reads \<^verbatim>\<open>error.message?.includes\<close>, so the message may be
  missing). Whether such an object is an instance of the JavaScript class \<^verbatim>\<open>Error\<close>
  depends on the version of the client library, which is not part of the sources; the
  field \<open>is_Error\<close> carries the answer.
\<close>

record pg_error =
  code :: string
  message :: "string option"
  is_Error :: bool

text \<open>
  What a function of the program can throw: \<^verbatim>\<open>new Error(msg)\<close>, the backing store's
  error object as it is, or some other object (the email collaborator's failure).
\<close>

datatype thrown = JsError string | Backing pg_error | Opaque

section \<open>The query layer\<close>

text \<open>
  The query builder is a collaborator, not code of this repository. Its model here:
  a request either fails as a whole, with the error object the environment supplies
  (\<open>Some e\<close>: network, permissions, policy) and without touching the tables, or it is
  carried out on the tables. \<^verbatim>\<open>.single()\<close> answers with the row when the result has
  exactly one row and with the error \<^verbatim>\<open>PGRST116\<close> otherwise.
\<close>

definition PGRST116 :: pg_error where
  "PGRST116 = \<lparr>code = ''PGRST116'',
     message = Some ''JSON object requested, multiple (or no) rows returned'',
     is_Error = False\<rparr>"

definition single :: "pg_error option \<Rightarrow> 'a list \<Rightarrow> pg_error + 'a" where
  "single fault rows =
     (case fault of
        Some e \<Rightarrow> Inl e
      | None \<Rightarrow> (case rows of [r] \<Rightarrow> Inr r | _ \<Rightarrow> Inl PGRST116))"

text \<open>\<^verbatim>\<open>s.includes(t)\<close> of JavaScript: \<open>t\<close> occurs in \<open>s\<close> as a contiguous run.\<close>

definition str_includes :: "string \<Rightarrow> string \<Rightarrow> bool" where
  "str_includes s t = sublist t s"

text \<open>\<^verbatim>\<open>error.message?.includes(t)\<close>: a missing message gives \<^verbatim>\<open>undefined\<close>, which is falsy.\<close>

definition message_includes :: "string option \<Rightarrow> string \<Rightarrow> bool" where
  "message_includes m t = (case m of None \<Rightarrow> False | Some s \<Rightarrow> str_includes s t)"

section \<open>The data-access layer (src/lib/users.ts)\<close>

definition getUserByEmail ::
  "store \<Rightarrow> pg_error option \<Rightarrow> string \<Rightarrow> thrown + AppUser option" where
  "getUserByEmail db fault em =
     (case single fault (filter (\<lambda>u. AppUser.email u = em) (AppUsers db)) of
        Inl error \<Rightarrow> (if code error = ''PGRST116'' then Inr None else Inl (Backing error))
      | Inr data \<Rightarrow> Inr (Some data))"

text \<open>
  \<^verbatim>\<open>resetPassword\<close> makes two requests: the lookup (\<open>fault1\<close>) and the update (\<open>fault2\<close>).
  The update changes every row whose email is the given one.
\<close>

definition resetPassword ::
  "store \<Rightarrow> pg_error option \<Rightarrow> pg_error option \<Rightarrow> string \<Rightarrow> string \<Rightarrow> store \<times> (thrown + unit)" where
  "resetPassword db fault1 fault2 em newPassword =
     (case getUserByEmail db fault1 em of
        Inl ex \<Rightarrow> (db, Inl ex)
      | Inr None \<Rightarrow> (db, Inl (JsError ''User not found''))
      | Inr (Some user) \<Rightarrow>
          (case fault2 of
             Some error \<Rightarrow> (db, Inl (Backing error))
           | None \<Rightarrow>
               (db\<lparr>AppUsers :=
                    map (\<lambda>u. if AppUser.email u = em
                              then u\<lparr>password := newPassword, status := Pending\<rparr> else u)
                      (AppUsers db)\<rparr>,
                Inr ())))"

text \<open>
  Modelled from the spec: the default of the column \<^verbatim>\<open>used\<close> of the table
  \<^verbatim>\<open>password_reset_otps\<close>, whose declaration is not among the sources. The spec gives
  it as false.
\<close>

definition used_default :: bool where
  "used_default = False"

text \<open>
  \<^verbatim>\<open>createPasswordResetOtp\<close> sends \<^verbatim>\<open>email\<close>, \<^verbatim>\<open>otp\<close> and \<^verbatim>\<open>expires_at\<close>; the other columns
  are filled by the table's defaults: \<^verbatim>\<open>used\<close> as above, \<^verbatim>\<open>id\<close> and \<^verbatim>\<open>created_at\<close> by the
  store, whose choices are the parameters \<open>new_id\<close> and \<open>server_now\<close> (the store's clock).
  \<open>now\<close> is the reading of \<^verbatim>\<open>Date.now()\<close>.
\<close>

definition createPasswordResetOtp ::
  "store \<Rightarrow> time \<Rightarrow> string \<Rightarrow> time \<Rightarrow> pg_error option \<Rightarrow> string \<Rightarrow> string
     \<Rightarrow> store \<times> (thrown + PasswordResetOtp)" where
  "createPasswordResetOtp db now new_id server_now fault em code_value =
     (case fault of
        Some error \<Rightarrow>
          (if code error = ''42501'' \<or> message_includes (message error) ''permission''
           then (db, Inl (JsError
             ''Database permission error. Please disable RLS for password_reset_otps table or check your Supabase policies.''))
           else (db, Inl (Backing error)))
      | None \<Rightarrow>
          (let data = \<lparr>otp_id = new_id, email = em, otp = code_value,
                        created_at = server_now, expires_at = now + 10 * 60 * 1000,
                        used = used_default\<rparr>
           in (db\<lparr>password_reset_otps := password_reset_otps db @ [data]\<rparr>, Inr data)))"

text \<open>
  The lookup of \<^verbatim>\<open>verifyPasswordResetOtp\<close>, clause by clause: the four filters, the
  descending order on \<^verbatim>\<open>created_at\<close> (rows created at the same instant keep their table
  order; the store promises no order among them) and \<^verbatim>\<open>limit(1)\<close>.
\<close>

definition otp_lookup :: "store \<Rightarrow> time \<Rightarrow> string \<Rightarrow> string \<Rightarrow> PasswordResetOtp list" where
  "otp_lookup db now em code_value =
     take 1 (sort_key (\<lambda>r. - created_at r)
       (filter (\<lambda>r. PasswordResetOtp.email r = em \<and> otp r = code_value
                     \<and> used r = False \<and> expires_at r > now)
          (password_reset_otps db)))"

definition mark_used :: "string \<Rightarrow> PasswordResetOtp list \<Rightarrow> PasswordResetOtp list" where
  "mark_used i rows = map (\<lambda>r. if otp_id r = i then r\<lparr>used := True\<rparr> else r) rows"

definition verifyPasswordResetOtp ::
  "store \<Rightarrow> time \<Rightarrow> pg_error option \<Rightarrow> pg_error option \<Rightarrow> string \<Rightarrow> string
     \<Rightarrow> store \<times> (thrown + bool)" where
  "verifyPasswordResetOtp db now fault1 fault2 em code_value =
     (case single fault1 (otp_lookup db now em code_value) of
        Inl error \<Rightarrow> (db, Inr False)
      | Inr data \<Rightarrow>
          (case fault2 of
             Some updateError \<Rightarrow> (db, Inl (Backing updateError))
           | None \<Rightarrow>
               (db\<lparr>password_reset_otps := mark_used (otp_id data) (password_reset_otps db)\<rparr>,
                Inr True)))"

definition cleanupExpiredOtps :: "store \<Rightarrow> time \<Rightarrow> pg_error option \<Rightarrow> store \<times> (thrown + unit)" where
  "cleanupExpiredOtps db now fault =
     (case fault of
        Some error \<Rightarrow> (db, Inl (Backing error))
      | None \<Rightarrow>
          (db\<lparr>password_reset_otps :=
               filter (\<lambda>r. \<not> expires_at r < now) (password_reset_otps db)\<rparr>,
           Inr ()))"

section \<open>The reset-flow controller (component \<^verbatim>\<open>ForgotPassword\<close>)\<close>

text \<open>
  The component holds three pieces of state (\<^verbatim>\<open>formData\<close>, \<^verbatim>\<open>isLoading\<close>, \<^verbatim>\<open>step\<close>) and
  renders one form per step. The steps \<^verbatim>\<open>'email' | 'otp' | 'password'\<close> and the \<^verbatim>\<open>name\<close>
  attributes of the four inputs are datatypes.
\<close>

datatype Step = Step_email | Step_otp | Step_password

record FormData =
  email :: string
  otp :: string
  newPassword :: string
  confirmPassword :: string

datatype field = Field_email | Field_otp | Field_newPassword | Field_confirmPassword

definition emptyForm :: FormData where
  "emptyForm = \<lparr>email = [], otp = [], newPassword = [], confirmPassword = []\<rparr>"

text \<open>\<^verbatim>\<open>handleInputChange\<close>: \<^verbatim>\<open>setFormData(prev => ({...prev, [name]: value}))\<close>.\<close>

fun handleInputChange :: "field \<Rightarrow> string \<Rightarrow> FormData \<Rightarrow> FormData" where
  "handleInputChange Field_email v prev = prev\<lparr>FormData.email := v\<rparr>"
| "handleInputChange Field_otp v prev = prev\<lparr>FormData.otp := v\<rparr>"
| "handleInputChange Field_newPassword v prev = prev\<lparr>newPassword := v\<rparr>"
| "handleInputChange Field_confirmPassword v prev = prev\<lparr>confirmPassword := v\<rparr>"

text \<open>The arguments of a \<^verbatim>\<open>Swal.fire\<close> call (\<^verbatim>\<open>text\<close> is called \<open>body\<close> here).\<close>

record notice =
  icon :: string
  title :: string
  body :: string

text \<open>The calls a handler makes to the data-access layer and to the email collaborator.\<close>

datatype api_call =
    Call_getUserByEmail string
  | Call_createPasswordResetOtp string string
  | Call_sendOtpEmail string string
  | Call_verifyPasswordResetOtp string string
  | Call_resetPassword string string

text \<open>The state setters of the component.\<close>

datatype setter = SetIsLoading bool | SetStep Step | SetFormData FormData

text \<open>
  Decimal notation of a natural number (\<^verbatim>\<open>Number.prototype.toString\<close> on a
  non-negative integer). \<open>digit\<close> is only applied to numbers below ten.
\<close>

definition digit :: "nat \<Rightarrow> char" where
  "digit k = ''0123456789'' ! k"

function toString :: "nat \<Rightarrow> string" where
  "toString n =
     (if n < 10 then [digit n]
      else toString (n div 10) @ [digit (n mod 10)])"
  by pat_completeness auto
termination
  by (relation "measure (\<lambda>n. n)") auto

declare toString.simps [simp del]

text \<open>
  \<^verbatim>\<open>generateOtp\<close>: \<^verbatim>\<open>Math.floor(100000 + Math.random() * 900000).toString()\<close>. The
  argument \<open>r\<close> is the integer part of \<^verbatim>\<open>Math.random() * 900000\<close>, which the environment
  draws below 900000.
\<close>

definition generateOtp :: "nat \<Rightarrow> string" where
  "generateOtp r = toString (100000 + r)"

text \<open>
  What the environment contributes to one submission: the clock, the random draw, the
  defaults of the store for a new row, the failures of the (at most two) requests to
  the backing store, and the failure of the email collaborator.
\<close>

record env =
  now :: time
  rnd :: nat
  new_id :: string
  server_now :: time
  fault1 :: "pg_error option"
  fault2 :: "pg_error option"
  mail_fault :: "thrown option"

text \<open>\<^verbatim>\<open>error instanceof Error\<close> and \<^verbatim>\<open>error.message\<close> for a thrown value.\<close>

fun instanceof_Error :: "thrown \<Rightarrow> bool" where
  "instanceof_Error (JsError m) = True"
| "instanceof_Error (Backing e) = is_Error e"
| "instanceof_Error Opaque = False"

fun thrown_message :: "thrown \<Rightarrow> string option" where
  "thrown_message (JsError m) = Some m"
| "thrown_message (Backing e) = message e"
| "thrown_message Opaque = None"

text \<open>The message computed in the \<^verbatim>\<open>catch\<close> block of \<^verbatim>\<open>handleSendOtp\<close>.\<close>

definition sendOtpErrorMessage :: "thrown \<Rightarrow> string" where
  "sendOtpErrorMessage error =
     (if instanceof_Error error then
        (if message_includes (thrown_message error) ''permission''
            \<or> message_includes (thrown_message error) ''RLS''
         then ''Database permission error. Please contact administrator to disable RLS for password_reset_otps table.''
         else if message_includes (thrown_message error) ''table does not exist''
         then ''Database table not found. Please contact administrator to create password_reset_otps table.''
         else ''Failed to send OTP: '' @
                (case thrown_message error of Some m \<Rightarrow> m | None \<Rightarrow> ''undefined''))
      else ''Failed to send OTP. Please try again.'')"

text \<open>
  A handler is an \<^verbatim>\<open>async\<close> function. It reads the \<^verbatim>\<open>formData\<close> of the render in which it
  was created, so one invocation sees one value of the form throughout. Its outcome:
  the setters it calls before its first \<^verbatim>\<open>await\<close> (\<open>sync_updates\<close>), the setters it calls
  after (\<open>async_updates\<close>, in order, the \<^verbatim>\<open>finally\<close> block last), the notices it shows, the
  calls it makes and the store it leaves.
\<close>

record outcome =
  sync_updates :: "setter list"
  async_updates :: "setter list"
  shown :: "notice list"
  called :: "api_call list"
  store_after :: store

definition rejected :: "notice \<Rightarrow> store \<Rightarrow> outcome" where
  "rejected n db = \<lparr>sync_updates = [], async_updates = [], shown = [n], called = [],
     store_after = db\<rparr>"

definition sendOtpFailed :: "thrown \<Rightarrow> api_call list \<Rightarrow> store \<Rightarrow> outcome" where
  "sendOtpFailed error cs db =
     \<lparr>sync_updates = [SetIsLoading True], async_updates = [SetIsLoading False],
      shown = [\<lparr>icon = ''error'', title = ''Error'', body = sendOtpErrorMessage error\<rparr>],
      called = cs, store_after = db\<rparr>"

definition handleSendOtp :: "FormData \<Rightarrow> env \<Rightarrow> store \<Rightarrow> outcome" where
  "handleSendOtp fd e db =
     (if FormData.email fd = [] then
        rejected \<lparr>icon = ''error'', title = ''Missing Email'',
                  body = ''Please enter your email address.''\<rparr> db
      else
        (case getUserByEmail db (fault1 e) (FormData.email fd) of
           Inl error \<Rightarrow> sendOtpFailed error [Call_getUserByEmail (FormData.email fd)] db
         | Inr None \<Rightarrow>
             \<lparr>sync_updates = [SetIsLoading True], async_updates = [SetIsLoading False],
              shown = [\<lparr>icon = ''error'', title = ''User Not Found'',
                        body = ''No account found with this email address.''\<rparr>],
              called = [Call_getUserByEmail (FormData.email fd)], store_after = db\<rparr>
         | Inr (Some user) \<Rightarrow>
             (let code_value = generateOtp (rnd e);
                  cs = [Call_getUserByEmail (FormData.email fd),
                        Call_createPasswordResetOtp (FormData.email fd) code_value]
              in (case createPasswordResetOtp db (now e) (new_id e) (server_now e) (fault2 e)
                         (FormData.email fd) code_value of
                    (db', Inl error) \<Rightarrow> sendOtpFailed error cs db'
                  | (db', Inr row) \<Rightarrow>
                      (case mail_fault e of
                         Some emailError \<Rightarrow>
                           sendOtpFailed emailError
                             (cs @ [Call_sendOtpEmail (FormData.email fd) code_value]) db'
                       | None \<Rightarrow>
                           \<lparr>sync_updates = [SetIsLoading True],
                            async_updates = [SetStep Step_otp, SetIsLoading False],
                            shown = [\<lparr>icon = ''success'', title = ''OTP Sent'',
                                      body = ''Please check your email for the OTP.''\<rparr>],
                            called = cs @ [Call_sendOtpEmail (FormData.email fd) code_value],
                            store_after = db'\<rparr>)))))"

definition handleVerifyOtp :: "FormData \<Rightarrow> env \<Rightarrow> store \<Rightarrow> outcome" where
  "handleVerifyOtp fd e db =
     (if FormData.otp fd = [] then
        rejected \<lparr>icon = ''error'', title = ''Missing OTP'', body = ''Please enter the OTP.''\<rparr> db
      else
        (case verifyPasswordResetOtp db (now e) (fault1 e) (fault2 e)
                (FormData.email fd) (FormData.otp fd) of
           (db', Inr isValid) \<Rightarrow>
             (if \<not> isValid then
                \<lparr>sync_updates = [SetIsLoading True], async_updates = [SetIsLoading False],
                 shown = [\<lparr>icon = ''error'', title = ''Invalid OTP'',
                           body = ''The OTP you entered is incorrect or has expired.''\<rparr>],
                 called = [Call_verifyPasswordResetOtp (FormData.email fd) (FormData.otp fd)],
                 store_after = db'\<rparr>
              else
                \<lparr>sync_updates = [SetIsLoading True],
                 async_updates = [SetStep Step_password, SetIsLoading False],
                 shown = [],
                 called = [Call_verifyPasswordResetOtp (FormData.email fd) (FormData.otp fd)],
                 store_after = db'\<rparr>)
         | (db', Inl error) \<Rightarrow>
             \<lparr>sync_updates = [SetIsLoading True], async_updates = [SetIsLoading False],
              shown = [\<lparr>icon = ''error'', title = ''Error'',
                        body = ''Failed to verify OTP. Please try again.''\<rparr>],
              called = [Call_verifyPasswordResetOtp (FormData.email fd) (FormData.otp fd)],
              store_after = db'\<rparr>))"

definition handleResetPassword :: "FormData \<Rightarrow> env \<Rightarrow> store \<Rightarrow> outcome" where
  "handleResetPassword fd e db =
     (if newPassword fd = [] \<or> confirmPassword fd = [] then
        rejected \<lparr>icon = ''error'', title = ''Missing Fields'',
                  body = ''Please fill in all fields.''\<rparr> db
      else if newPassword fd \<noteq> confirmPassword fd then
        rejected \<lparr>icon = ''error'', title = ''Password Mismatch'',
                  body = ''New password and confirm password do not match.''\<rparr> db
      else
        (case resetPassword db (fault1 e) (fault2 e) (FormData.email fd) (newPassword fd) of
           (db', Inr u) \<Rightarrow>
             \<lparr>sync_updates = [SetIsLoading True],
              async_updates = [SetFormData emptyForm, SetStep Step_email, SetIsLoading False],
              shown = [\<lparr>icon = ''success'', title = ''Password Reset Successful'',
                        body = ''Your password has been reset. Please wait for admin approval before logging in.''\<rparr>],
              called = [Call_resetPassword (FormData.email fd) (newPassword fd)],
              store_after = db'\<rparr>
         | (db', Inl error) \<Rightarrow>
             \<lparr>sync_updates = [SetIsLoading True], async_updates = [SetIsLoading False],
              shown = [\<lparr>icon = ''error'', title = ''Error'',
                        body = ''Failed to reset password. Please try again.''\<rparr>],
              called = [Call_resetPassword (FormData.email fd) (newPassword fd)],
              store_after = db'\<rparr>))"

subsection \<open>The component as a transition system\<close>

text \<open>
  The state of a run: the three pieces of component state, the setters of a handler
  whose requests are still in flight (\<open>pending\<close>), the backing store, and the notices
  shown and calls made so far.
\<close>

record world =
  formData :: FormData
  isLoading :: bool
  step :: Step
  pending :: "setter list"
  backing :: store
  notices :: "notice list"
  calls :: "api_call list"

definition initial :: "store \<Rightarrow> world" where
  "initial d = \<lparr>formData = emptyForm, isLoading = False, step = Step_email, pending = [],
     backing = d, notices = [], calls = []\<rparr>"

fun apply_setter :: "setter \<Rightarrow> world \<Rightarrow> world" where
  "apply_setter (SetIsLoading b) w = w\<lparr>isLoading := b\<rparr>"
| "apply_setter (SetStep s) w = w\<lparr>step := s\<rparr>"
| "apply_setter (SetFormData fd) w = w\<lparr>formData := fd\<rparr>"

text \<open>Which input each step renders, and which handler its form submits to.\<close>

fun rendered :: "Step \<Rightarrow> field \<Rightarrow> bool" where
  "rendered Step_email f = (f = Field_email)"
| "rendered Step_otp f = (f = Field_otp)"
| "rendered Step_password f = (f = Field_newPassword \<or> f = Field_confirmPassword)"

fun onSubmit :: "Step \<Rightarrow> FormData \<Rightarrow> env \<Rightarrow> store \<Rightarrow> outcome" where
  "onSubmit Step_email = handleSendOtp"
| "onSubmit Step_otp = handleVerifyOtp"
| "onSubmit Step_password = handleResetPassword"

text \<open>
  The events of a run. \<open>Change f v\<close>: the user edits the input named \<open>f\<close>, if the current
  step renders it. \<open>Submit e\<close>: the user submits the form of the current step, which the
  disabled button prevents while \<^verbatim>\<open>isLoading\<close> holds; the handler runs up to its first
  \<^verbatim>\<open>await\<close>, and its requests are sent. \<open>Settle\<close>: the requests have returned and the
  rest of the handler runs. The inputs are not disabled while a request is in
  flight, so \<open>Change\<close> may come between \<open>Submit\<close> and \<open>Settle\<close>. The requests act on the
  store at \<open>Submit\<close>; one handler at most is in flight and no other event reads the
  store, so the moment at which they act within that window makes no difference.
\<close>

datatype event = Change field string | Submit env | Settle

fun react :: "event \<Rightarrow> world \<Rightarrow> world" where
  "react (Change f v) w =
     (if rendered (step w) f then w\<lparr>formData := handleInputChange f v (formData w)\<rparr> else w)"
| "react (Submit e) w =
     (if isLoading w then w
      else (let out = onSubmit (step w) (formData w) e (backing w)
            in (fold apply_setter (sync_updates out) w)
                 \<lparr>pending := async_updates out, backing := store_after out,
                  notices := notices w @ shown out, calls := calls w @ called out\<rparr>))"
| "react Settle w = (fold apply_setter (pending w) w)\<lparr>pending := []\<rparr>"

definition run :: "event list \<Rightarrow> world \<Rightarrow> world" where
  "run evs w = fold react evs w"

text \<open>
  Reading a log of calls: \<open>last_lookup\<close> is the email of the latest \<^verbatim>\<open>getUserByEmail\<close>
  call, and \<open>lookup_consistent\<close> says that every \<^verbatim>\<open>verifyPasswordResetOtp\<close> and
  \<^verbatim>\<open>resetPassword\<close> call of the log is made with the email of the latest lookup before it.
\<close>

fun last_lookup :: "string option \<Rightarrow> api_call list \<Rightarrow> string option" where
  "last_lookup l [] = l"
| "last_lookup l (Call_getUserByEmail em # cs) = last_lookup (Some em) cs"
| "last_lookup l (c # cs) = last_lookup l cs"

fun lookup_consistent :: "string option \<Rightarrow> api_call list \<Rightarrow> bool" where
  "lookup_consistent l [] = True"
| "lookup_consistent l (Call_getUserByEmail em # cs) = lookup_consistent (Some em) cs"
| "lookup_consistent l (Call_verifyPasswordResetOtp em v # cs) =
     (l = Some em \<and> lookup_consistent l cs)"
| "lookup_consistent l (Call_resetPassword em v # cs) =
     (l = Some em \<and> lookup_consistent l cs)"
| "lookup_consistent l (c # cs) = lookup_consistent l cs"

text \<open>
  \<open>calm evs w\<close>: in the run of \<open>evs\<close> from \<open>w\<close>, the email input is never edited while a
  request is in flight.
\<close>

fun calm :: "event list \<Rightarrow> world \<Rightarrow> bool" where
  "calm [] w = True"
| "calm (Change Field_email v # evs) w = (\<not> isLoading w \<and> calm evs (react (Change Field_email v) w))"
| "calm (ev # evs) w = calm evs (react ev w)"

text \<open>
  Two invariants of the runs. \<open>pending_ok\<close>: the setters still to be applied are those of
  one handler of the current step, and there are some exactly while \<^verbatim>\<open>isLoading\<close> holds.
  \<open>lookup_inv\<close>: the log is consistent, and once the step has left \<^verbatim>\<open>'email'\<close> (or is
  about to) the email of the form is the one looked up last.
\<close>

definition pending_ok :: "world \<Rightarrow> bool" where
  "pending_ok w =
     (if isLoading w then
        pending w = [SetIsLoading False]
        \<or> (step w = Step_email \<and> pending w = [SetStep Step_otp, SetIsLoading False])
        \<or> (step w = Step_otp \<and> pending w = [SetStep Step_password, SetIsLoading False])
        \<or> (step w = Step_password
             \<and> pending w = [SetFormData emptyForm, SetStep Step_email, SetIsLoading False])
      else pending w = [])"

definition lookup_inv :: "world \<Rightarrow> bool" where
  "lookup_inv w =
     (lookup_consistent None (calls w)
      \<and> (step w \<noteq> Step_email \<or> pending w = [SetStep Step_otp, SetIsLoading False]
           \<longrightarrow> last_lookup None (calls w) = Some (FormData.email (formData w))))"

section \<open>Concrete stores and environments\<close>

text \<open>The data of the scenarios of the specification, used to instantiate the theorems.\<close>

definition alice :: AppUser where
  "alice = \<lparr>full_name = ''Alice'', email = ''a@x.com'', password = ''old'',
     status = Approved\<rparr>"

definition row1 :: PasswordResetOtp where
  "row1 = \<lparr>otp_id = ''1'', email = ''a@x.com'', otp = ''123456'', created_at = 1000,
     expires_at = 601000, used = False\<rparr>"

definition row2 :: PasswordResetOtp where
  "row2 = \<lparr>otp_id = ''2'', email = ''a@x.com'', otp = ''123456'', created_at = 2000,
     expires_at = 602000, used = False\<rparr>"

definition db0 :: store where
  "db0 = \<lparr>AppUsers = [alice], password_reset_otps = []\<rparr>"

definition db1 :: store where
  "db1 = \<lparr>AppUsers = [alice], password_reset_otps = [row1]\<rparr>"

definition db2 :: store where
  "db2 = \<lparr>AppUsers = [alice], password_reset_otps = [row1, row2]\<rparr>"

definition net_error :: pg_error where
  "net_error = \<lparr>code = ''08006'', message = Some ''connection failure'', is_Error = False\<rparr>"

definition rls_error :: pg_error where
  "rls_error = \<lparr>code = ''42501'',
     message = Some ''new row violates row-level security policy'', is_Error = False\<rparr>"

definition perm_error :: pg_error where
  "perm_error = \<lparr>code = ''PGRST301'',
     message = Some ''permission denied for table password_reset_otps'', is_Error = False\<rparr>"

definition env0 :: env where
  "env0 = \<lparr>now = 5000, rnd = 23456, new_id = ''7'', server_now = 5002, fault1 = None,
     fault2 = None, mail_fault = None\<rparr>"

definition env_late :: env where
  "env_late = env0\<lparr>now := 700000\<rparr>"

definition env_fail :: env where
  "env_fail = env0\<lparr>fault2 := Some net_error\<rparr>"

text \<open>
  Three runs from the initial state over \<open>db0\<close>. \<open>full_run\<close> is the scenario of the
  specification: request, verify, new password. In \<open>race_run\<close> the user edits the email
  input while the request of the first step is in flight. \<open>otp_entered\<close> and
  \<open>email_entered\<close> are the states reached just before a submission.
\<close>

definition full_run :: "event list" where
  "full_run = [Change Field_email ''a@x.com'', Submit env0, Settle,
     Change Field_otp ''123456'', Submit env0, Settle,
     Change Field_newPassword ''NewPass1!'', Change Field_confirmPassword ''NewPass1!'',
     Submit env0, Settle]"

definition race_run :: "event list" where
  "race_run = [Change Field_email ''a@x.com'', Submit env0, Change Field_email ''b@x.com'',
     Settle, Change Field_otp ''123456'', Submit env0]"

definition otp_entered :: world where
  "otp_entered = run [Change Field_email ''a@x.com'', Submit env0, Settle,
     Change Field_otp ''123456''] (initial db0)"

definition email_entered :: world where
  "email_entered = react (Change Field_email ''missing@x.com'') (initial db0)"

section \<open>Properties of the data-access layer\<close>

subsection \<open>The lookup of \<^verbatim>\<open>verifyPasswordResetOtp\<close>\<close>

lemma take_one: "take (Suc 0) xs = (case xs of [] \<Rightarrow> [] | x # ys \<Rightarrow> [x])"
  by (cases xs) simp_all

lemma newest_first:
  assumes "sort_key (\<lambda>r. - created_at r) xs = y # ys"
  shows "y \<in> set xs \<and> (\<forall>x \<in> set xs. created_at x \<le> created_at y)"
proof -
  have s: "sorted (map (\<lambda>r. - created_at r) (sort_key (\<lambda>r. - created_at r) xs))"
    by (rule sorted_sort_key)
  have m: "set (sort_key (\<lambda>r. - created_at r) xs) = set xs"
    by simp
  from assms m have "y \<in> set xs" by auto
  moreover from assms s m have "\<forall>x \<in> set xs. created_at x \<le> created_at y"
    by auto
  ultimately show ?thesis by simp
qed

lemma otp_lookup_cases:
  "otp_lookup d t em cv = [] \<or> (\<exists>r. otp_lookup d t em cv = [r])"
  by (simp add: otp_lookup_def take_one split: list.splits)

lemma otp_lookup_single:
  assumes "otp_lookup d t em cv = [r]"
  shows "r \<in> set (password_reset_otps d) \<and> PasswordResetOtp.email r = em
     \<and> PasswordResetOtp.otp r = cv \<and> \<not> used r \<and> t < expires_at r
     \<and> (\<forall>x \<in> set (password_reset_otps d).
           PasswordResetOtp.email x = em \<and> PasswordResetOtp.otp x = cv \<and> \<not> used x
           \<and> t < expires_at x \<longrightarrow> created_at x \<le> created_at r)"
proof -
  let ?f = "filter (\<lambda>r. PasswordResetOtp.email r = em \<and> PasswordResetOtp.otp r = cv
                     \<and> used r = False \<and> expires_at r > t) (password_reset_otps d)"
  from assms obtain ys where "sort_key (\<lambda>r. - created_at r) ?f = r # ys"
    by (auto simp: otp_lookup_def take_one split: list.splits)
  from newest_first [OF this]
  have "r \<in> set ?f" and "\<forall>x \<in> set ?f. created_at x \<le> created_at r"
    by blast+
  then show ?thesis by auto
qed

lemma otp_lookup_empty:
  "otp_lookup d t em cv = [] \<longleftrightarrow>
     (\<forall>x \<in> set (password_reset_otps d).
           PasswordResetOtp.email x = em \<and> PasswordResetOtp.otp x = cv \<longrightarrow> expires_at x \<le> t \<or> used x)"
proof -
  let ?f = "filter (\<lambda>r. PasswordResetOtp.email r = em \<and> PasswordResetOtp.otp r = cv
                     \<and> used r = False \<and> expires_at r > t) (password_reset_otps d)"
  have "otp_lookup d t em cv = [] \<longleftrightarrow> sort_key (\<lambda>r. - created_at r) ?f = []"
    by (simp add: otp_lookup_def)
  also have "\<dots> \<longleftrightarrow> set (sort_key (\<lambda>r. - created_at r) ?f) = {}"
    by (simp only: set_empty)
  also have "\<dots> \<longleftrightarrow> set ?f = {}" by simp
  also have "\<dots> \<longleftrightarrow> (\<forall>x \<in> set (password_reset_otps d).
           PasswordResetOtp.email x = em \<and> PasswordResetOtp.otp x = cv \<longrightarrow> expires_at x \<le> t \<or> used x)"
    by (auto simp: filter_empty_conv)
  finally show ?thesis .
qed

lemma mark_used_member:
  "r \<in> set rows \<Longrightarrow> r\<lparr>used := True\<rparr> \<in> set (mark_used (otp_id r) rows)"
  by (induction rows) (auto simp: mark_used_def)

lemma lookup_after_mark_empty:
  assumes h: "\<forall>x \<in> set (password_reset_otps d).
        PasswordResetOtp.email x = em \<and> PasswordResetOtp.otp x = cv \<and> \<not> used x
        \<and> t' < expires_at x \<longrightarrow> otp_id x = i"
  shows "otp_lookup (d\<lparr>password_reset_otps := mark_used i (password_reset_otps d)\<rparr>)
           t' em cv = []"
  unfolding otp_lookup_empty
proof (intro ballI impI)
  fix x
  assume x: "x \<in> set (password_reset_otps
               (d\<lparr>password_reset_otps := mark_used i (password_reset_otps d)\<rparr>))"
    and m: "PasswordResetOtp.email x = em \<and> PasswordResetOtp.otp x = cv"
  from x obtain y where y: "y \<in> set (password_reset_otps d)"
    and xy: "x = (if otp_id y = i then y\<lparr>used := True\<rparr> else y)"
    by (auto simp: mark_used_def)
  show "expires_at x \<le> t' \<or> used x"
  proof (cases "otp_id y = i")
    case True
    with xy show ?thesis by simp
  next
    case False
    with xy have xy': "x = y" by simp
    show ?thesis
    proof (rule ccontr)
      assume "\<not> (expires_at x \<le> t' \<or> used x)"
      then have "\<not> used x" and "t' < expires_at x" by auto
      with h y m xy' have "otp_id y = i" by blast
      with False show False by simp
    qed
  qed
qed

lemma lookup_after_mark_nonempty:
  assumes x: "x \<in> set (password_reset_otps d)"
    and m: "PasswordResetOtp.email x = em" "PasswordResetOtp.otp x = cv" "\<not> used x"
      "t' < expires_at x"
    and i: "otp_id x \<noteq> i"
  shows "otp_lookup (d\<lparr>password_reset_otps := mark_used i (password_reset_otps d)\<rparr>)
           t' em cv \<noteq> []"
proof -
  from x i have "x \<in> set (mark_used i (password_reset_otps d))"
    by (force simp: mark_used_def)
  with m show ?thesis
    unfolding otp_lookup_empty by auto
qed

subsection \<open>\<^verbatim>\<open>verifyPasswordResetOtp\<close>\<close>

text \<open>
  C1. When the lookup finds no row, or the lookup request fails, the result is \<open>False\<close>
  and the store is as before. When the lookup finds a row, it is a row \<open>r\<close> of the table
  with the given email and code, unused and unexpired, and no such row was created
  later; if both requests go through, \<open>r\<close> is marked used and the result is \<open>True\<close>; if
  the update request fails with \<open>e\<close>, then \<open>e\<close> is thrown (no boolean is returned) and the
  store is as before.
\<close>

theorem verifyPasswordResetOtp_cases:
  "(otp_lookup d t em cv = [] \<or> f1 \<noteq> None
      \<longrightarrow> verifyPasswordResetOtp d t f1 f2 em cv = (d, Inr False))
   \<and> (otp_lookup d' t' em' cv' \<noteq> [] \<longrightarrow>
        (\<exists>r \<in> set (password_reset_otps d').
           PasswordResetOtp.email r = em' \<and> PasswordResetOtp.otp r = cv' \<and> \<not> used r
           \<and> t' < expires_at r
           \<and> (\<forall>x \<in> set (password_reset_otps d').
                 PasswordResetOtp.email x = em' \<and> PasswordResetOtp.otp x = cv' \<and> \<not> used x
                 \<and> t' < expires_at x \<longrightarrow> created_at x \<le> created_at r)
           \<and> verifyPasswordResetOtp d' t' None None em' cv' =
                (d'\<lparr>password_reset_otps := mark_used (otp_id r) (password_reset_otps d')\<rparr>,
                 Inr True)
           \<and> r\<lparr>used := True\<rparr> \<in> set (mark_used (otp_id r) (password_reset_otps d'))
           \<and> verifyPasswordResetOtp d' t' None (Some e) em' cv' = (d', Inl (Backing e))))"
proof (intro conjI impI)
  assume "otp_lookup d t em cv = [] \<or> f1 \<noteq> None"
  then show "verifyPasswordResetOtp d t f1 f2 em cv = (d, Inr False)"
    by (auto simp: verifyPasswordResetOtp_def single_def split: option.splits)
next
  assume "otp_lookup d' t' em' cv' \<noteq> []"
  with otp_lookup_cases [of d' t' em' cv']
  obtain r where r: "otp_lookup d' t' em' cv' = [r]" by blast
  note p = otp_lookup_single [OF r]
  have v1: "verifyPasswordResetOtp d' t' None None em' cv' =
                (d'\<lparr>password_reset_otps := mark_used (otp_id r) (password_reset_otps d')\<rparr>,
                 Inr True)"
    by (simp add: verifyPasswordResetOtp_def single_def r)
  have v2: "verifyPasswordResetOtp d' t' None (Some e) em' cv' = (d', Inl (Backing e))"
    by (simp add: verifyPasswordResetOtp_def single_def r)
  from p have m: "r\<lparr>used := True\<rparr> \<in> set (mark_used (otp_id r) (password_reset_otps d'))"
    by (simp add: mark_used_member)
  from p v1 v2 m
  show "\<exists>r \<in> set (password_reset_otps d').
           PasswordResetOtp.email r = em' \<and> PasswordResetOtp.otp r = cv' \<and> \<not> used r
           \<and> t' < expires_at r
           \<and> (\<forall>x \<in> set (password_reset_otps d').
                 PasswordResetOtp.email x = em' \<and> PasswordResetOtp.otp x = cv' \<and> \<not> used x
                 \<and> t' < expires_at x \<longrightarrow> created_at x \<le> created_at r)
           \<and> verifyPasswordResetOtp d' t' None None em' cv' =
                (d'\<lparr>password_reset_otps := mark_used (otp_id r) (password_reset_otps d')\<rparr>,
                 Inr True)
           \<and> r\<lparr>used := True\<rparr> \<in> set (mark_used (otp_id r) (password_reset_otps d'))
           \<and> verifyPasswordResetOtp d' t' None (Some e) em' cv' = (d', Inl (Backing e))"
    by blast
qed

theorem verifyPasswordResetOtp_cases_witness:
  "(otp_lookup db0 5000 ''a@x.com'' ''123456'' = [] \<or> (None :: pg_error option) \<noteq> None)
   \<and> verifyPasswordResetOtp db0 5000 None None ''a@x.com'' ''123456'' = (db0, Inr False)
   \<and> verifyPasswordResetOtp db2 5000 (Some net_error) None ''a@x.com'' ''123456'' =
         (db2, Inr False)
   \<and> otp_lookup db2 5000 ''a@x.com'' ''123456'' \<noteq> []
   \<and> (\<exists>r \<in> set (password_reset_otps db2).
           PasswordResetOtp.email r = ''a@x.com'' \<and> PasswordResetOtp.otp r = ''123456''
           \<and> \<not> used r \<and> 5000 < expires_at r
           \<and> (\<forall>x \<in> set (password_reset_otps db2).
                 PasswordResetOtp.email x = ''a@x.com'' \<and> PasswordResetOtp.otp x = ''123456''
                 \<and> \<not> used x \<and> 5000 < expires_at x \<longrightarrow> created_at x \<le> created_at r)
           \<and> verifyPasswordResetOtp db2 5000 None None ''a@x.com'' ''123456'' =
                (db2\<lparr>password_reset_otps := mark_used (otp_id r) (password_reset_otps db2)\<rparr>,
                 Inr True)
           \<and> r\<lparr>used := True\<rparr> \<in> set (mark_used (otp_id r) (password_reset_otps db2))
           \<and> verifyPasswordResetOtp db2 5000 None (Some net_error) ''a@x.com'' ''123456'' =
                (db2, Inl (Backing net_error)))"
proof -
  have h1: "otp_lookup db0 5000 ''a@x.com'' ''123456'' = [] \<or> (None :: pg_error option) \<noteq> None"
    by (simp add: otp_lookup_def db0_def)
  have h2: "otp_lookup db2 5000 ''a@x.com'' ''123456'' \<noteq> []"
    by (simp add: otp_lookup_def db2_def row1_def row2_def sort_key_def)
  have h3: "otp_lookup db2 5000 ''a@x.com'' ''123456'' = [] \<or> Some net_error \<noteq> None"
    by simp
  from h3
    verifyPasswordResetOtp_cases [of db2 5000 "''a@x.com''" "''123456''" "Some net_error" None
      db2 5000 "''a@x.com''" "''123456''" net_error]
  have failed_lookup:
    "verifyPasswordResetOtp db2 5000 (Some net_error) None ''a@x.com'' ''123456'' =
       (db2, Inr False)"
    by blast
  from h1 h2 failed_lookup
    verifyPasswordResetOtp_cases [of db0 5000 "''a@x.com''" "''123456''" None None db2 5000
      "''a@x.com''" "''123456''" net_error]
  show ?thesis by blast
qed

text \<open>
  C2, as amended. When some row with the given email and code is unused and unexpired
  at time \<open>t\<close>, the verification at \<open>t\<close> (both requests going through) succeeds and
  marks used the rows with the id of a newest such row \<open>s\<close>. A second verification with
  the same email and code, at a time \<open>t'\<close>, then gives \<open>False\<close>, whatever the requests do,
  when no row with another id is unused and unexpired for that email and code at \<open>t'\<close>;
  and it succeeds, both requests going through at a time \<open>t''\<close>, when a row with
  another id is unused and unexpired for that email and code at \<open>t''\<close>.
\<close>

theorem verify_then_verify_again:
  assumes r: "r \<in> set (password_reset_otps d)"
    and m: "PasswordResetOtp.email r = em" "PasswordResetOtp.otp r = cv" "\<not> used r"
      "t < expires_at r"
  shows "\<exists>s \<in> set (password_reset_otps d).
           PasswordResetOtp.email s = em \<and> PasswordResetOtp.otp s = cv \<and> \<not> used s
           \<and> t < expires_at s
           \<and> (\<forall>x \<in> set (password_reset_otps d).
                 PasswordResetOtp.email x = em \<and> PasswordResetOtp.otp x = cv \<and> \<not> used x
                 \<and> t < expires_at x \<longrightarrow> created_at x \<le> created_at s)
           \<and> verifyPasswordResetOtp d t None None em cv =
                (d\<lparr>password_reset_otps := mark_used (otp_id s) (password_reset_otps d)\<rparr>,
                 Inr True)
           \<and> ((\<forall>x \<in> set (password_reset_otps d).
                  PasswordResetOtp.email x = em \<and> PasswordResetOtp.otp x = cv \<and> \<not> used x
                  \<and> t' < expires_at x \<longrightarrow> otp_id x = otp_id s)
                \<longrightarrow> verifyPasswordResetOtp
                      (d\<lparr>password_reset_otps := mark_used (otp_id s) (password_reset_otps d)\<rparr>)
                      t' f1 f2 em cv =
                    (d\<lparr>password_reset_otps := mark_used (otp_id s) (password_reset_otps d)\<rparr>,
                     Inr False))
           \<and> ((\<exists>x \<in> set (password_reset_otps d).
                  PasswordResetOtp.email x = em \<and> PasswordResetOtp.otp x = cv \<and> \<not> used x
                  \<and> t'' < expires_at x \<and> otp_id x \<noteq> otp_id s)
                \<longrightarrow> snd (verifyPasswordResetOtp
                      (d\<lparr>password_reset_otps := mark_used (otp_id s) (password_reset_otps d)\<rparr>)
                      t'' None None em cv) = Inr True)"
proof -
  from r m have "otp_lookup d t em cv \<noteq> []"
    unfolding otp_lookup_empty by auto
  with otp_lookup_cases [of d t em cv]
  obtain s where s: "otp_lookup d t em cv = [s]" by blast
  note p = otp_lookup_single [OF s]
  let ?d' = "d\<lparr>password_reset_otps := mark_used (otp_id s) (password_reset_otps d)\<rparr>"
  have first: "verifyPasswordResetOtp d t None None em cv = (?d', Inr True)"
    by (simp add: verifyPasswordResetOtp_def single_def s)
  have none_left: "verifyPasswordResetOtp ?d' t' f1 f2 em cv = (?d', Inr False)"
    if "\<forall>x \<in> set (password_reset_otps d).
          PasswordResetOtp.email x = em \<and> PasswordResetOtp.otp x = cv \<and> \<not> used x
          \<and> t' < expires_at x \<longrightarrow> otp_id x = otp_id s"
  proof -
    from lookup_after_mark_empty [OF that]
    show ?thesis
      by (simp add: verifyPasswordResetOtp_def single_def split: option.splits)
  qed
  have one_left: "snd (verifyPasswordResetOtp ?d' t'' None None em cv) = Inr True"
    if "\<exists>x \<in> set (password_reset_otps d).
          PasswordResetOtp.email x = em \<and> PasswordResetOtp.otp x = cv \<and> \<not> used x
          \<and> t'' < expires_at x \<and> otp_id x \<noteq> otp_id s"
  proof -
    from that obtain x where "x \<in> set (password_reset_otps d)"
      "PasswordResetOtp.email x = em" "PasswordResetOtp.otp x = cv" "\<not> used x"
      "t'' < expires_at x" "otp_id x \<noteq> otp_id s"
      by blast
    from lookup_after_mark_nonempty [OF this]
    have "otp_lookup ?d' t'' em cv \<noteq> []" .
    with otp_lookup_cases [of ?d' t'' em cv]
    obtain y where "otp_lookup ?d' t'' em cv = [y]" by blast
    then show ?thesis
      by (simp add: verifyPasswordResetOtp_def single_def)
  qed
  from p first none_left one_left show ?thesis by blast
qed

theorem verify_then_verify_again_witness:
  "row1 \<in> set (password_reset_otps db2)
   \<and> verifyPasswordResetOtp db2 5000 None None ''a@x.com'' ''123456'' =
       (db2\<lparr>password_reset_otps := mark_used ''2'' (password_reset_otps db2)\<rparr>, Inr True)
   \<and> verifyPasswordResetOtp
         (db2\<lparr>password_reset_otps := mark_used ''2'' (password_reset_otps db2)\<rparr>)
         601500 None None ''a@x.com'' ''123456'' =
       (db2\<lparr>password_reset_otps := mark_used ''2'' (password_reset_otps db2)\<rparr>, Inr False)
   \<and> snd (verifyPasswordResetOtp
         (db2\<lparr>password_reset_otps := mark_used ''2'' (password_reset_otps db2)\<rparr>)
         5001 None None ''a@x.com'' ''123456'') = Inr True"
proof -
  have h: "row1 \<in> set (password_reset_otps db2)" "PasswordResetOtp.email row1 = ''a@x.com''"
    "PasswordResetOtp.otp row1 = ''123456''" "\<not> used row1" "5000 < expires_at row1"
    by (simp_all add: db2_def row1_def)
  from verify_then_verify_again [OF h, of 601500 None None 5001]
  obtain s where s: "s \<in> set (password_reset_otps db2)"
    and newest: "\<forall>x \<in> set (password_reset_otps db2).
                 PasswordResetOtp.email x = ''a@x.com'' \<and> PasswordResetOtp.otp x = ''123456''
                 \<and> \<not> used x \<and> 5000 < expires_at x \<longrightarrow> created_at x \<le> created_at s"
    and first: "verifyPasswordResetOtp db2 5000 None None ''a@x.com'' ''123456'' =
                (db2\<lparr>password_reset_otps := mark_used (otp_id s) (password_reset_otps db2)\<rparr>,
                 Inr True)"
    and none_left: "(\<forall>x \<in> set (password_reset_otps db2).
                  PasswordResetOtp.email x = ''a@x.com'' \<and> PasswordResetOtp.otp x = ''123456''
                  \<and> \<not> used x \<and> 601500 < expires_at x \<longrightarrow> otp_id x = otp_id s)
                \<longrightarrow> verifyPasswordResetOtp
                      (db2\<lparr>password_reset_otps := mark_used (otp_id s) (password_reset_otps db2)\<rparr>)
                      601500 None None ''a@x.com'' ''123456'' =
                    (db2\<lparr>password_reset_otps := mark_used (otp_id s) (password_reset_otps db2)\<rparr>,
                     Inr False)"
    and one_left: "(\<exists>x \<in> set (password_reset_otps db2).
                  PasswordResetOtp.email x = ''a@x.com'' \<and> PasswordResetOtp.otp x = ''123456''
                  \<and> \<not> used x \<and> 5001 < expires_at x \<and> otp_id x \<noteq> otp_id s)
                \<longrightarrow> snd (verifyPasswordResetOtp
                      (db2\<lparr>password_reset_otps := mark_used (otp_id s) (password_reset_otps db2)\<rparr>)
                      5001 None None ''a@x.com'' ''123456'') = Inr True"
    by blast
  from newest have "created_at row2 \<le> created_at s"
    by (simp add: db2_def row1_def row2_def)
  with s have "s = row2"
    by (auto simp: db2_def row1_def row2_def)
  then have i: "otp_id s = ''2''" by (simp add: row2_def)
  from none_left have second_fails: "verifyPasswordResetOtp
         (db2\<lparr>password_reset_otps := mark_used ''2'' (password_reset_otps db2)\<rparr>)
         601500 None None ''a@x.com'' ''123456'' =
       (db2\<lparr>password_reset_otps := mark_used ''2'' (password_reset_otps db2)\<rparr>, Inr False)"
    unfolding i by (simp add: db2_def row1_def row2_def)
  from one_left have second_succeeds: "snd (verifyPasswordResetOtp
         (db2\<lparr>password_reset_otps := mark_used ''2'' (password_reset_otps db2)\<rparr>)
         5001 None None ''a@x.com'' ''123456'') = Inr True"
    unfolding i by (simp add: db2_def row1_def row2_def)
  from h(1) first second_fails second_succeeds show ?thesis
    unfolding i by simp
qed

text \<open>
  C2, as stated, fails when a second unused, unexpired row carries the same email
  and code: the first verification consumes the newer row only, and the second
  verification finds the older one and succeeds too.
\<close>

theorem second_verification_counterexample:
  "snd (verifyPasswordResetOtp db2 5000 None None ''a@x.com'' ''123456'') = Inr True
   \<and> snd (verifyPasswordResetOtp
            (fst (verifyPasswordResetOtp db2 5000 None None ''a@x.com'' ''123456''))
            5001 None None ''a@x.com'' ''123456'') = Inr True"
  by (simp add: verifyPasswordResetOtp_def single_def otp_lookup_def mark_used_def db2_def
      row1_def row2_def sort_key_def)

text \<open>
  C4. When every row with the given email and code is expired (\<^verbatim>\<open>expires_at\<close> not after
  the current time) or used, the verification gives \<open>False\<close> and leaves the store as it
  is, whatever the requests do.
\<close>

theorem verifyPasswordResetOtp_expired_or_used:
  "(\<forall>r \<in> set (password_reset_otps d).
      PasswordResetOtp.email r = em \<and> PasswordResetOtp.otp r = cv \<longrightarrow> expires_at r \<le> t \<or> used r)
   \<Longrightarrow> verifyPasswordResetOtp d t f1 f2 em cv = (d, Inr False)"
  using otp_lookup_empty [of d t em cv]
  by (simp add: verifyPasswordResetOtp_def single_def split: option.splits)

theorem verifyPasswordResetOtp_expired_or_used_witness:
  "verifyPasswordResetOtp db2 700000 None None ''a@x.com'' ''123456'' = (db2, Inr False)"
proof -
  have h: "\<forall>r \<in> set (password_reset_otps db2).
      PasswordResetOtp.email r = ''a@x.com'' \<and> PasswordResetOtp.otp r = ''123456''
      \<longrightarrow> expires_at r \<le> 700000 \<or> used r"
    by (simp add: db2_def row1_def row2_def)
  from verifyPasswordResetOtp_expired_or_used [OF h, of None None]
  show ?thesis .
qed

subsection \<open>\<^verbatim>\<open>resetPassword\<close>\<close>

text \<open>
  C3. When no user has the email (and the lookup request goes through),
  \<^verbatim>\<open>resetPassword\<close> throws \<^verbatim>\<open>Error('User not found')\<close> and the store is as before. When
  the lookup returns a user \<open>u\<close> and the update request goes through, every user with
  that email gets the new password and the status \<open>Pending\<close>, whatever the status was;
  \<open>u\<close> so updated is in the table, and the table of codes is as before.
\<close>

theorem resetPassword_results:
  "(filter (\<lambda>u. AppUser.email u = em) (AppUsers d) = []
      \<longrightarrow> resetPassword d None f2 em pw = (d, Inl (JsError ''User not found'')))
   \<and> (getUserByEmail d' f1' em' = Inr (Some u) \<longrightarrow>
        resetPassword d' f1' None em' pw' =
          (d'\<lparr>AppUsers := map (\<lambda>v. if AppUser.email v = em'
                                    then v\<lparr>password := pw', status := Pending\<rparr> else v)
                              (AppUsers d')\<rparr>, Inr ())
        \<and> u\<lparr>password := pw', status := Pending\<rparr> \<in> set (AppUsers (fst (resetPassword d' f1' None em' pw')))
        \<and> password_reset_otps (fst (resetPassword d' f1' None em' pw')) = password_reset_otps d')"
proof (intro conjI impI)
  assume "filter (\<lambda>u. AppUser.email u = em) (AppUsers d) = []"
  then show "resetPassword d None f2 em pw = (d, Inl (JsError ''User not found''))"
    by (simp add: resetPassword_def getUserByEmail_def single_def PGRST116_def)
next
  assume g: "getUserByEmail d' f1' em' = Inr (Some u)"
  then show "resetPassword d' f1' None em' pw' =
          (d'\<lparr>AppUsers := map (\<lambda>v. if AppUser.email v = em'
                                    then v\<lparr>password := pw', status := Pending\<rparr> else v)
                              (AppUsers d')\<rparr>, Inr ())"
    by (simp add: resetPassword_def)
  from g have "filter (\<lambda>u. AppUser.email u = em') (AppUsers d') = [u]"
    by (auto simp: getUserByEmail_def single_def split: option.splits list.splits if_splits)
  then have "u \<in> set (filter (\<lambda>u. AppUser.email u = em') (AppUsers d'))"
    by simp
  then have "u \<in> set (AppUsers d')" and "AppUser.email u = em'"
    by simp_all
  with g show "u\<lparr>password := pw', status := Pending\<rparr> \<in> set (AppUsers (fst (resetPassword d' f1' None em' pw')))"
    by (force simp: resetPassword_def)
  from g show "password_reset_otps (fst (resetPassword d' f1' None em' pw')) = password_reset_otps d'"
    by (simp add: resetPassword_def)
qed

theorem resetPassword_results_witness:
  "filter (\<lambda>u. AppUser.email u = ''missing@x.com'') (AppUsers db0) = []
   \<and> resetPassword db0 None None ''missing@x.com'' ''NewPass1!'' =
       (db0, Inl (JsError ''User not found''))
   \<and> getUserByEmail db0 None ''a@x.com'' = Inr (Some alice)
   \<and> resetPassword db0 None None ''a@x.com'' ''NewPass1!'' =
       (db0\<lparr>AppUsers := map (\<lambda>v. if AppUser.email v = ''a@x.com''
                                    then v\<lparr>password := ''NewPass1!'', status := Pending\<rparr> else v)
                              (AppUsers db0)\<rparr>, Inr ())
   \<and> alice\<lparr>password := ''NewPass1!'', status := Pending\<rparr>
        \<in> set (AppUsers (fst (resetPassword db0 None None ''a@x.com'' ''NewPass1!'')))
   \<and> password_reset_otps (fst (resetPassword db0 None None ''a@x.com'' ''NewPass1!'')) =
        password_reset_otps db0"
proof -
  have h1: "filter (\<lambda>u. AppUser.email u = ''missing@x.com'') (AppUsers db0) = []"
    by (simp add: db0_def alice_def)
  have h2: "getUserByEmail db0 None ''a@x.com'' = Inr (Some alice)"
    by (simp add: getUserByEmail_def single_def db0_def alice_def)
  from h1 h2
    resetPassword_results [of "''missing@x.com''" db0 None "''NewPass1!''" db0 None "''a@x.com''"
      alice "''NewPass1!''"]
  show ?thesis by blast
qed

subsection \<open>\<^verbatim>\<open>createPasswordResetOtp\<close>\<close>

text \<open>
  C5, as amended. When the request goes through, the table of codes grows by exactly
  one row, with the given email and code, \<^verbatim>\<open>expires_at\<close> ten minutes (600000 ms) after the
  reading \<open>t\<close> of the client's clock at the call, \<^verbatim>\<open>used\<close> false, and \<^verbatim>\<open>created_at\<close> as the
  store sets it; that row is returned. When the request fails with the code \<^verbatim>\<open>42501\<close> or a
  message containing \<^verbatim>\<open>permission\<close>, an \<^verbatim>\<open>Error\<close> with a fixed readable message is thrown
  in place of the backing store's error.
\<close>

theorem createPasswordResetOtp_results:
  "createPasswordResetOtp d t i st None em cv =
     (d\<lparr>password_reset_otps := password_reset_otps d @
          [\<lparr>otp_id = i, email = em, otp = cv, created_at = st, expires_at = t + 600000,
            used = False\<rparr>]\<rparr>,
      Inr \<lparr>otp_id = i, email = em, otp = cv, created_at = st, expires_at = t + 600000,
            used = False\<rparr>)
   \<and> (code e = ''42501'' \<or> message_includes (message e) ''permission'' \<longrightarrow>
        createPasswordResetOtp d t i st (Some e) em cv =
          (d, Inl (JsError ''Database permission error. Please disable RLS for password_reset_otps table or check your Supabase policies.'')))"
  by (simp add: createPasswordResetOtp_def used_default_def Let_def)

theorem createPasswordResetOtp_results_witness:
  "createPasswordResetOtp db0 5000 ''7'' 5002 None ''a@x.com'' ''123456'' =
     (db0\<lparr>password_reset_otps := password_reset_otps db0 @
          [\<lparr>otp_id = ''7'', email = ''a@x.com'', otp = ''123456'', created_at = 5002,
            expires_at = 5000 + 600000, used = False\<rparr>]\<rparr>,
      Inr \<lparr>otp_id = ''7'', email = ''a@x.com'', otp = ''123456'', created_at = 5002,
            expires_at = 5000 + 600000, used = False\<rparr>)
   \<and> (code rls_error = ''42501'' \<or> message_includes (message rls_error) ''permission'')
   \<and> createPasswordResetOtp db0 5000 ''7'' 5002 (Some rls_error) ''a@x.com'' ''123456'' =
          (db0, Inl (JsError ''Database permission error. Please disable RLS for password_reset_otps table or check your Supabase policies.''))
   \<and> (code perm_error = ''42501'' \<or> message_includes (message perm_error) ''permission'')
   \<and> createPasswordResetOtp db0 5000 ''7'' 5002 (Some perm_error) ''a@x.com'' ''123456'' =
          (db0, Inl (JsError ''Database permission error. Please disable RLS for password_reset_otps table or check your Supabase policies.''))"
proof -
  have h: "code rls_error = ''42501'' \<or> message_includes (message rls_error) ''permission''"
    by (simp add: rls_error_def)
  have h': "code perm_error = ''42501'' \<or> message_includes (message perm_error) ''permission''"
    by (simp add: perm_error_def message_includes_def str_includes_def sublist_Cons_right)
  from h h'
    createPasswordResetOtp_results [of db0 5000 "''7''" 5002 "''a@x.com''" "''123456''" rls_error]
    createPasswordResetOtp_results [of db0 5000 "''7''" 5002 "''a@x.com''" "''123456''" perm_error]
  show ?thesis by blast
qed

text \<open>
  C5, as stated, fails: the code sends \<^verbatim>\<open>expires_at\<close> computed from \<^verbatim>\<open>Date.now()\<close> and leaves
  \<^verbatim>\<open>created_at\<close> to the store, so the expiry of the stored row is ten minutes after the
  client's clock and not after the row's creation time. Here the store's clock reads
  5002 when the client's reads 5000.
\<close>

theorem creation_time_counterexample:
  "(case snd (createPasswordResetOtp db0 5000 ''7'' 5002 None ''a@x.com'' ''123456'') of
      Inl error \<Rightarrow> False
    | Inr row \<Rightarrow> expires_at row \<noteq> created_at row + 10 * 60 * 1000)"
  by (simp add: createPasswordResetOtp_def Let_def)

subsection \<open>\<^verbatim>\<open>cleanupExpiredOtps\<close>\<close>

text \<open>
  C6. When the request goes through, the table of codes afterwards consists of
  exactly the rows whose \<^verbatim>\<open>expires_at\<close> is not before the current time, unchanged and in
  their order, and the table of users is as before.
\<close>

theorem cleanupExpiredOtps_effect:
  "snd (cleanupExpiredOtps d t None) = Inr ()
   \<and> password_reset_otps (fst (cleanupExpiredOtps d t None)) =
       filter (\<lambda>r. t \<le> expires_at r) (password_reset_otps d)
   \<and> AppUsers (fst (cleanupExpiredOtps d t None)) = AppUsers d"
  by (simp add: cleanupExpiredOtps_def not_less)

theorem cleanupExpiredOtps_effect_witness:
  "snd (cleanupExpiredOtps db2 601500 None) = Inr ()
   \<and> password_reset_otps (fst (cleanupExpiredOtps db2 601500 None)) = [row2]
   \<and> AppUsers (fst (cleanupExpiredOtps db2 601500 None)) = [alice]"
  using cleanupExpiredOtps_effect [of db2 601500]
  by (simp add: db2_def row1_def row2_def)

subsection \<open>\<^verbatim>\<open>getUserByEmail\<close>\<close>

text \<open>
  C7. \<^verbatim>\<open>getUserByEmail\<close> returns the row when exactly one row has the email, returns
  \<open>None\<close> as a value (nothing is thrown) when no row has it, and throws the backing
  store's error when the request fails with any error whose code is not the
  no-rows code \<^verbatim>\<open>PGRST116\<close>.
\<close>

theorem getUserByEmail_results:
  "(filter (\<lambda>u. AppUser.email u = em) (AppUsers d) = [u]
      \<longrightarrow> getUserByEmail d None em = Inr (Some u))
   \<and> (filter (\<lambda>u. AppUser.email u = em') (AppUsers d') = []
      \<longrightarrow> getUserByEmail d' None em' = Inr None)
   \<and> (code e \<noteq> ''PGRST116'' \<longrightarrow> getUserByEmail d'' (Some e) em'' = Inl (Backing e))"
  by (simp add: getUserByEmail_def single_def PGRST116_def)

theorem getUserByEmail_results_witness:
  "getUserByEmail db0 None ''a@x.com'' = Inr (Some alice)
   \<and> getUserByEmail db0 None ''missing@x.com'' = Inr None
   \<and> getUserByEmail db0 (Some net_error) ''a@x.com'' = Inl (Backing net_error)"
  using getUserByEmail_results [of "''a@x.com''" db0 alice "''missing@x.com''" db0 net_error db0 "''a@x.com''"]
  by (simp add: db0_def alice_def net_error_def)

section \<open>Properties of the controller\<close>

subsection \<open>Evaluating concrete runs\<close>

lemma generateOtp_23456: "generateOtp 23456 = ''123456''"
  by (simp add: generateOtp_def toString.simps digit_def)

lemmas eval_defs = run_def initial_def emptyForm_def env0_def db0_def alice_def net_error_def
  handleSendOtp_def handleVerifyOtp_def handleResetPassword_def rejected_def sendOtpFailed_def
  getUserByEmail_def single_def PGRST116_def createPasswordResetOtp_def used_default_def
  verifyPasswordResetOtp_def resetPassword_def otp_lookup_def mark_used_def sort_key_def
  Let_def generateOtp_23456

text \<open>
  The scenario of the specification: after \<open>full_run\<close> the account has the new password
  and the status \<open>Pending\<close>, the code is used, and the form is back at its first step.
\<close>

lemma full_run_scenario:
  "backing (run full_run (initial db0)) =
     \<lparr>AppUsers = [alice\<lparr>password := ''NewPass1!'', status := Pending\<rparr>],
      password_reset_otps =
        [\<lparr>otp_id = ''7'', email = ''a@x.com'', otp = ''123456'', created_at = 5002,
          expires_at = 605000, used = True\<rparr>]\<rparr>
   \<and> step (run full_run (initial db0)) = Step_email
   \<and> formData (run full_run (initial db0)) = emptyForm
   \<and> \<not> isLoading (run full_run (initial db0))"
  by (simp add: full_run_def eval_defs)

subsection \<open>What the handlers ask of the component state\<close>

lemma handleSendOtp_updates:
  "(sync_updates (handleSendOtp fd e d) = [] \<and> async_updates (handleSendOtp fd e d) = [])
   \<or> (sync_updates (handleSendOtp fd e d) = [SetIsLoading True]
       \<and> (async_updates (handleSendOtp fd e d) = [SetIsLoading False]
           \<or> async_updates (handleSendOtp fd e d) = [SetStep Step_otp, SetIsLoading False]))"
  by (simp add: handleSendOtp_def rejected_def sendOtpFailed_def Let_def
      split: sum.splits option.splits prod.splits)

lemma handleVerifyOtp_updates:
  "(sync_updates (handleVerifyOtp fd e d) = [] \<and> async_updates (handleVerifyOtp fd e d) = [])
   \<or> (sync_updates (handleVerifyOtp fd e d) = [SetIsLoading True]
       \<and> (async_updates (handleVerifyOtp fd e d) = [SetIsLoading False]
           \<or> async_updates (handleVerifyOtp fd e d) = [SetStep Step_password, SetIsLoading False]))"
  by (simp add: handleVerifyOtp_def rejected_def
      split: sum.splits option.splits prod.splits)

lemma handleResetPassword_updates:
  "(sync_updates (handleResetPassword fd e d) = [] \<and> async_updates (handleResetPassword fd e d) = [])
   \<or> (sync_updates (handleResetPassword fd e d) = [SetIsLoading True]
       \<and> (async_updates (handleResetPassword fd e d) = [SetIsLoading False]
           \<or> async_updates (handleResetPassword fd e d)
               = [SetFormData emptyForm, SetStep Step_email, SetIsLoading False]))"
  by (simp add: handleResetPassword_def rejected_def
      split: sum.splits option.splits prod.splits)

lemma pending_ok_react: "pending_ok w \<Longrightarrow> pending_ok (react ev w)"
proof (cases ev)
  case (Change f v)
  assume "pending_ok w"
  then show ?thesis using Change by (simp add: pending_ok_def)
next
  case (Submit e)
  assume p: "pending_ok w"
  show ?thesis
  proof (cases "isLoading w")
    case True
    with p Submit show ?thesis by simp
  next
    case False
    show ?thesis
    proof (cases "step w")
      case Step_email
      with False Submit handleSendOtp_updates [of "formData w" e "backing w"]
      show ?thesis by (auto simp: pending_ok_def Let_def)
    next
      case Step_otp
      with False Submit handleVerifyOtp_updates [of "formData w" e "backing w"]
      show ?thesis by (auto simp: pending_ok_def Let_def)
    next
      case Step_password
      with False Submit handleResetPassword_updates [of "formData w" e "backing w"]
      show ?thesis by (auto simp: pending_ok_def Let_def)
    qed
  qed
next
  case Settle
  assume "pending_ok w"
  then show ?thesis using Settle by (auto simp: pending_ok_def split: if_splits)
qed

lemma pending_ok_run: "pending_ok w \<Longrightarrow> pending_ok (run evs w)"
  unfolding run_def by (induction evs arbitrary: w) (simp_all add: pending_ok_react)

lemma pending_ok_initial: "pending_ok (initial d)"
  by (simp add: pending_ok_def initial_def)

subsection \<open>The step \<^verbatim>\<open>'otp'\<close>\<close>

text \<open>
  C8. In the step \<^verbatim>\<open>'otp'\<close>, with no request in flight, a submission and its completion
  lead to the step \<^verbatim>\<open>'password'\<close> exactly when a code was entered and
  \<^verbatim>\<open>verifyPasswordResetOtp\<close> returns \<open>True\<close>; in every other case the step is still \<^verbatim>\<open>'otp'\<close>.
  A result \<open>False\<close> and a thrown error both show one notice with the icon \<^verbatim>\<open>error\<close>
  (titled \<^verbatim>\<open>Invalid OTP\<close> and \<^verbatim>\<open>Error\<close>, respectively); a result \<open>True\<close> shows none.
\<close>

theorem otp_step_transitions:
  assumes "step w = Step_otp" and "\<not> isLoading w"
  shows "step (react Settle (react (Submit e) w)) =
           (if FormData.otp (formData w) \<noteq> []
               \<and> snd (verifyPasswordResetOtp (backing w) (now e) (fault1 e) (fault2 e)
                       (FormData.email (formData w)) (FormData.otp (formData w))) = Inr True
            then Step_password else Step_otp)
         \<and> notices (react Settle (react (Submit e) w)) = notices w @
           (if FormData.otp (formData w) = [] then
              [\<lparr>icon = ''error'', title = ''Missing OTP'', body = ''Please enter the OTP.''\<rparr>]
            else
              (case snd (verifyPasswordResetOtp (backing w) (now e) (fault1 e) (fault2 e)
                           (FormData.email (formData w)) (FormData.otp (formData w))) of
                 Inr True \<Rightarrow> []
               | Inr False \<Rightarrow>
                   [\<lparr>icon = ''error'', title = ''Invalid OTP'',
                     body = ''The OTP you entered is incorrect or has expired.''\<rparr>]
               | Inl error \<Rightarrow>
                   [\<lparr>icon = ''error'', title = ''Error'',
                     body = ''Failed to verify OTP. Please try again.''\<rparr>]))"
  using assms
  by (simp add: handleVerifyOtp_def rejected_def Let_def
      split: sum.splits prod.splits bool.splits)

theorem otp_step_transitions_witness:
  "step otp_entered = Step_otp \<and> \<not> isLoading otp_entered
   \<and> FormData.otp (formData otp_entered) \<noteq> []
   \<and> step (react Settle (react (Submit env0) otp_entered)) = Step_password
   \<and> step (react Settle (react (Submit env_late) otp_entered)) = Step_otp
   \<and> notices (react Settle (react (Submit env_late) otp_entered)) = notices otp_entered @
         [\<lparr>icon = ''error'', title = ''Invalid OTP'',
           body = ''The OTP you entered is incorrect or has expired.''\<rparr>]
   \<and> step (react Settle (react (Submit env_fail) otp_entered)) = Step_otp
   \<and> notices (react Settle (react (Submit env_fail) otp_entered)) = notices otp_entered @
         [\<lparr>icon = ''error'', title = ''Error'',
           body = ''Failed to verify OTP. Please try again.''\<rparr>]"
proof -
  have h1: "step otp_entered = Step_otp"
    by (simp add: otp_entered_def eval_defs)
  have h2: "\<not> isLoading otp_entered"
    by (simp add: otp_entered_def eval_defs)
  have h3: "FormData.otp (formData otp_entered) \<noteq> []"
    by (simp add: otp_entered_def eval_defs)
  have v0: "snd (verifyPasswordResetOtp (backing otp_entered) (now env0) (fault1 env0)
              (fault2 env0) (FormData.email (formData otp_entered))
              (FormData.otp (formData otp_entered))) = Inr True"
    by (simp add: otp_entered_def eval_defs)
  have v1: "snd (verifyPasswordResetOtp (backing otp_entered) (now env_late) (fault1 env_late)
              (fault2 env_late) (FormData.email (formData otp_entered))
              (FormData.otp (formData otp_entered))) = Inr False"
    by (simp add: otp_entered_def env_late_def eval_defs)
  have v2: "snd (verifyPasswordResetOtp (backing otp_entered) (now env_fail) (fault1 env_fail)
              (fault2 env_fail) (FormData.email (formData otp_entered))
              (FormData.otp (formData otp_entered))) = Inl (Backing net_error)"
    by (simp add: otp_entered_def env_fail_def eval_defs)
  from otp_step_transitions [OF h1 h2, of env0] v0 h3
  have r0: "step (react Settle (react (Submit env0) otp_entered)) = Step_password"
    by simp
  from otp_step_transitions [OF h1 h2, of env_late] v1 h3
  have r1: "step (react Settle (react (Submit env_late) otp_entered)) = Step_otp
    \<and> notices (react Settle (react (Submit env_late) otp_entered)) = notices otp_entered @
         [\<lparr>icon = ''error'', title = ''Invalid OTP'',
           body = ''The OTP you entered is incorrect or has expired.''\<rparr>]"
    by simp
  from otp_step_transitions [OF h1 h2, of env_fail] v2 h3
  have r2: "step (react Settle (react (Submit env_fail) otp_entered)) = Step_otp
    \<and> notices (react Settle (react (Submit env_fail) otp_entered)) = notices otp_entered @
         [\<lparr>icon = ''error'', title = ''Error'',
           body = ''Failed to verify OTP. Please try again.''\<rparr>]"
    by simp
  from h1 h2 h3 r0 r1 r2 show ?thesis by blast
qed

subsection \<open>The step \<^verbatim>\<open>'email'\<close>\<close>

text \<open>
  C9. In the step \<^verbatim>\<open>'email'\<close>, with no request in flight and an email entered, when
  \<^verbatim>\<open>getUserByEmail\<close> returns not-found, a submission and its completion leave the step
  at \<^verbatim>\<open>'email'\<close>, show the notice \<^verbatim>\<open>User Not Found\<close>, leave the store as it is (no row is
  created), and make no call but the lookup (no email is dispatched).
\<close>

theorem user_not_found_aborts:
  assumes "step w = Step_email" and "\<not> isLoading w"
    and "FormData.email (formData w) \<noteq> []"
    and "getUserByEmail (backing w) (fault1 e) (FormData.email (formData w)) = Inr None"
  shows "step (react Settle (react (Submit e) w)) = Step_email
         \<and> notices (react Settle (react (Submit e) w)) = notices w @
              [\<lparr>icon = ''error'', title = ''User Not Found'',
                body = ''No account found with this email address.''\<rparr>]
         \<and> backing (react Settle (react (Submit e) w)) = backing w
         \<and> calls (react Settle (react (Submit e) w)) =
              calls w @ [Call_getUserByEmail (FormData.email (formData w))]
         \<and> formData (react Settle (react (Submit e) w)) = formData w
         \<and> \<not> isLoading (react Settle (react (Submit e) w))"
  using assms
  by (simp add: handleSendOtp_def Let_def)

theorem user_not_found_aborts_witness:
  "step email_entered = Step_email \<and> \<not> isLoading email_entered
   \<and> FormData.email (formData email_entered) \<noteq> []
   \<and> getUserByEmail (backing email_entered) (fault1 env0)
        (FormData.email (formData email_entered)) = Inr None
   \<and> step (react Settle (react (Submit env0) email_entered)) = Step_email
   \<and> notices (react Settle (react (Submit env0) email_entered)) = notices email_entered @
        [\<lparr>icon = ''error'', title = ''User Not Found'',
          body = ''No account found with this email address.''\<rparr>]
   \<and> backing (react Settle (react (Submit env0) email_entered)) = backing email_entered
   \<and> calls (react Settle (react (Submit env0) email_entered)) =
        calls email_entered @ [Call_getUserByEmail (FormData.email (formData email_entered))]
   \<and> formData (react Settle (react (Submit env0) email_entered)) = formData email_entered
   \<and> \<not> isLoading (react Settle (react (Submit env0) email_entered))"
proof -
  have h1: "step email_entered = Step_email"
    by (simp add: email_entered_def eval_defs)
  have h2: "\<not> isLoading email_entered"
    by (simp add: email_entered_def eval_defs)
  have h3: "FormData.email (formData email_entered) \<noteq> []"
    by (simp add: email_entered_def eval_defs)
  have h4: "getUserByEmail (backing email_entered) (fault1 env0)
        (FormData.email (formData email_entered)) = Inr None"
    by (simp add: email_entered_def eval_defs)
  from h1 h2 h3 h4 user_not_found_aborts [OF h1 h2 h3 h4]
  show ?thesis by blast
qed

subsection \<open>The email of the form along a run\<close>

lemma last_lookup_append:
  "last_lookup l (cs @ ds) = last_lookup (last_lookup l cs) ds"
  by (induction l cs rule: last_lookup.induct) simp_all

lemma lookup_consistent_append:
  "lookup_consistent l (cs @ ds) =
     (lookup_consistent l cs \<and> lookup_consistent (last_lookup l cs) ds)"
  by (induction l cs rule: lookup_consistent.induct) auto

lemma handleSendOtp_called:
  "lookup_consistent l (called (handleSendOtp fd e d))
   \<and> (async_updates (handleSendOtp fd e d) = [SetStep Step_otp, SetIsLoading False]
        \<longrightarrow> last_lookup l (called (handleSendOtp fd e d)) = Some (FormData.email fd))"
  by (simp add: handleSendOtp_def rejected_def sendOtpFailed_def Let_def
      split: sum.splits option.splits prod.splits)

lemma handleVerifyOtp_called:
  "last_lookup l (called (handleVerifyOtp fd e d)) = l
   \<and> (l = Some (FormData.email fd) \<longrightarrow> lookup_consistent l (called (handleVerifyOtp fd e d)))"
  by (simp add: handleVerifyOtp_def rejected_def
      split: sum.splits option.splits prod.splits)

lemma handleResetPassword_called:
  "last_lookup l (called (handleResetPassword fd e d)) = l
   \<and> (l = Some (FormData.email fd) \<longrightarrow> lookup_consistent l (called (handleResetPassword fd e d)))"
  by (simp add: handleResetPassword_def rejected_def
      split: sum.splits option.splits prod.splits)

lemma handleInputChange_email:
  "f \<noteq> Field_email \<Longrightarrow> FormData.email (handleInputChange f v fd) = FormData.email fd"
  by (cases f) simp_all

lemma email_frozen:
  assumes p: "pending_ok w" and s: "step w \<noteq> Step_email"
  shows "FormData.email (formData (react ev w)) = FormData.email (formData w)
         \<or> (step (react ev w) = Step_email \<and> formData (react ev w) = emptyForm)"
proof (cases ev)
  case (Change f v)
  with s show ?thesis
    by (cases "step w") (auto simp: handleInputChange_email)
next
  case (Submit e)
  show ?thesis
  proof (cases "step w")
    case Step_email
    with s show ?thesis by simp
  next
    case Step_otp
    with Submit handleVerifyOtp_updates [of "formData w" e "backing w"]
    show ?thesis by (auto simp: Let_def)
  next
    case Step_password
    with Submit handleResetPassword_updates [of "formData w" e "backing w"]
    show ?thesis by (auto simp: Let_def)
  qed
next
  case Settle
  with p s show ?thesis by (auto simp: pending_ok_def split: if_splits)
qed

lemma lookup_inv_react:
  assumes p: "pending_ok w" and i: "lookup_inv w"
    and c: "\<And>v. ev = Change Field_email v \<Longrightarrow> \<not> isLoading w"
  shows "lookup_inv (react ev w)"
proof (cases ev)
  case (Change f v)
  show ?thesis
  proof (cases "f = Field_email")
    case True
    with Change c have "\<not> isLoading w" by simp
    with p have "pending w = []" by (simp add: pending_ok_def)
    with i Change True show ?thesis
      by (cases "step w") (auto simp: lookup_inv_def)
  next
    case False
    with i Change show ?thesis
      by (auto simp: lookup_inv_def handleInputChange_email)
  qed
next
  case (Submit e)
  show ?thesis
  proof (cases "isLoading w")
    case True
    with i Submit show ?thesis by simp
  next
    case False
    with p have pe: "pending w = []" by (simp add: pending_ok_def)
    show ?thesis
    proof (cases "step w")
      case Step_email
      with False Submit i pe
        handleSendOtp_updates [of "formData w" e "backing w"]
        handleSendOtp_called [of "last_lookup None (calls w)" "formData w" e "backing w"]
      show ?thesis
        by (auto simp: lookup_inv_def Let_def lookup_consistent_append last_lookup_append)
    next
      case Step_otp
      with False Submit i pe
        handleVerifyOtp_updates [of "formData w" e "backing w"]
        handleVerifyOtp_called [of "last_lookup None (calls w)" "formData w" e "backing w"]
      show ?thesis
        by (auto simp: lookup_inv_def Let_def lookup_consistent_append last_lookup_append)
    next
      case Step_password
      with False Submit i pe
        handleResetPassword_updates [of "formData w" e "backing w"]
        handleResetPassword_called [of "last_lookup None (calls w)" "formData w" e "backing w"]
      show ?thesis
        by (auto simp: lookup_inv_def Let_def lookup_consistent_append last_lookup_append)
    qed
  qed
next
  case Settle
  with p i show ?thesis
    by (auto simp: lookup_inv_def pending_ok_def split: if_splits)
qed

lemma calm_Cons:
  "calm (ev # evs) w =
     ((\<forall>v. ev = Change Field_email v \<longrightarrow> \<not> isLoading w) \<and> calm evs (react ev w))"
proof (cases ev)
  case (Change f v)
  then show ?thesis by (cases f) simp_all
qed simp_all

lemma lookup_inv_run:
  "calm evs w \<Longrightarrow> pending_ok w \<Longrightarrow> lookup_inv w \<Longrightarrow> lookup_inv (run evs w)"
proof (induction evs arbitrary: w)
  case Nil
  then show ?case by (simp add: run_def)
next
  case (Cons ev evs)
  from Cons.prems(1) have c1: "\<And>v. ev = Change Field_email v \<Longrightarrow> \<not> isLoading w"
    and c2: "calm evs (react ev w)"
    by (simp_all add: calm_Cons)
  from Cons.prems(2) have p: "pending_ok (react ev w)" by (rule pending_ok_react)
  from lookup_inv_react [OF Cons.prems(2) Cons.prems(3) c1]
  have i: "lookup_inv (react ev w)" by simp
  from Cons.IH [OF c2 p i] show ?case by (simp add: run_def)
qed

lemma lookup_inv_initial: "lookup_inv (initial d)"
  by (simp add: lookup_inv_def initial_def)

text \<open>
  C10, as amended. In every state reached from the initial one, when the step is not
  \<^verbatim>\<open>'email'\<close>, an event leaves the email of the form as it is, or it completes the flow
  (the step is \<^verbatim>\<open>'email'\<close> again and the form is cleared). And in every run in which the
  email input is not edited while a request is in flight, every
  \<^verbatim>\<open>verifyPasswordResetOtp\<close> and \<^verbatim>\<open>resetPassword\<close> call is made with the email of the
  latest \<^verbatim>\<open>getUserByEmail\<close> call.
\<close>

theorem email_fixed_after_first_step:
  "(step (run evs (initial d)) \<noteq> Step_email \<longrightarrow>
      FormData.email (formData (react ev (run evs (initial d))))
        = FormData.email (formData (run evs (initial d)))
      \<or> (step (react ev (run evs (initial d))) = Step_email
          \<and> formData (react ev (run evs (initial d))) = emptyForm))
   \<and> (calm evs' (initial d') \<longrightarrow> lookup_consistent None (calls (run evs' (initial d'))))"
proof (intro conjI impI)
  assume "step (run evs (initial d)) \<noteq> Step_email"
  with email_frozen [OF pending_ok_run [OF pending_ok_initial]]
  show "FormData.email (formData (react ev (run evs (initial d))))
        = FormData.email (formData (run evs (initial d)))
      \<or> (step (react ev (run evs (initial d))) = Step_email
          \<and> formData (react ev (run evs (initial d))) = emptyForm)"
    by blast
next
  assume "calm evs' (initial d')"
  from lookup_inv_run [OF this pending_ok_initial lookup_inv_initial]
  show "lookup_consistent None (calls (run evs' (initial d')))"
    by (simp add: lookup_inv_def)
qed

theorem email_fixed_after_first_step_witness:
  "step (run [Change Field_email ''a@x.com'', Submit env0, Settle] (initial db0)) \<noteq> Step_email
   \<and> (FormData.email (formData (react (Change Field_email ''b@x.com'')
          (run [Change Field_email ''a@x.com'', Submit env0, Settle] (initial db0))))
        = FormData.email (formData
            (run [Change Field_email ''a@x.com'', Submit env0, Settle] (initial db0)))
      \<or> (step (react (Change Field_email ''b@x.com'')
            (run [Change Field_email ''a@x.com'', Submit env0, Settle] (initial db0))) = Step_email
          \<and> formData (react (Change Field_email ''b@x.com'')
            (run [Change Field_email ''a@x.com'', Submit env0, Settle] (initial db0))) = emptyForm))
   \<and> calm full_run (initial db0)
   \<and> lookup_consistent None (calls (run full_run (initial db0)))"
proof -
  have h1: "step (run [Change Field_email ''a@x.com'', Submit env0, Settle] (initial db0))
              \<noteq> Step_email"
    by (simp add: eval_defs)
  have h2: "calm full_run (initial db0)"
    by (simp add: full_run_def eval_defs)
  from h1 h2
    email_fixed_after_first_step [of "[Change Field_email ''a@x.com'', Submit env0, Settle]" db0
      "Change Field_email ''b@x.com''" full_run db0]
  show ?thesis by blast
qed

text \<open>
  C10, as stated, fails: the email input stays enabled while the request of the first
  step is in flight (only the button is disabled). In \<open>race_run\<close> the user looks up
  \<^verbatim>\<open>a@x.com\<close>, edits the input to \<^verbatim>\<open>b@x.com\<close> before the request returns, and the step
  \<^verbatim>\<open>'otp'\<close> then calls \<^verbatim>\<open>verifyPasswordResetOtp\<close> with \<^verbatim>\<open>b@x.com\<close>.
\<close>

theorem looked_up_email_counterexample:
  "calls (run race_run (initial db0)) =
     [Call_getUserByEmail ''a@x.com'', Call_createPasswordResetOtp ''a@x.com'' ''123456'',
      Call_sendOtpEmail ''a@x.com'' ''123456'',
      Call_verifyPasswordResetOtp ''b@x.com'' ''123456'']
   \<and> \<not> lookup_consistent None (calls (run race_run (initial db0)))"
  by (simp add: race_run_def eval_defs)

end
